theory Spec2Isabelle
  imports Complex_Main "HOL-Library.Multiset" "HOL-Library.Sublist"
begin

section \<open>Python strings\<close>

text \<open>
  A Python \<open>str\<close> is a sequence of Unicode code points and \<open>len\<close> counts code points,
  so a string is modelled as a list of code points (natural numbers). ASCII literals of
  the source are written through \<open>pystr\<close>.
\<close>

type_synonym codepoint = nat
type_synonym str = "codepoint list"

definition pystr :: "string \<Rightarrow> str" where
  "pystr s = map of_char s"

section \<open>The cost tracker\<close>

text \<open>
  \<open>class CostTracker\<close>: the creation time and three running totals. Python integers are
  unbounded, hence \<open>int\<close>. The clock value is a float in the source; the model keeps the
  exact real number the float denotes.
\<close>

record CostTracker =
  start_time :: real
  total_tokens :: int
  total_prompt_tokens :: int
  total_completion_tokens :: int

text \<open>The usage record of a completed call, with its three counts.\<close>

record usage =
  prompt_tokens :: int
  completion_tokens :: int
  usage_total_tokens :: int

text \<open>
  The attribute \<open>usage\<close> of a response object: the object has no such attribute, or
  the attribute is \<open>None\<close>, or it is a usage record.
\<close>

datatype usage_attribute = Missing | Null | Present usage

text \<open>The exceptions of the program.\<close>

datatype error = RemoteError str | IndexError | AttributeError | UnicodeEncodeError

text \<open>\<open>CostTracker.__init__\<close>; the argument is the value of \<open>time.time()\<close>.\<close>

definition init :: "real \<Rightarrow> CostTracker" where
  "init now = \<lparr>start_time = now, total_tokens = 0, total_prompt_tokens = 0,
     total_completion_tokens = 0\<rparr>"

text \<open>
  \<open>CostTracker.add_usage\<close>. The argument is the \<open>usage\<close> attribute of the response.
  Without the attribute \<open>hasattr\<close> is false and nothing happens. When the attribute is
  \<open>None\<close>, \<open>hasattr\<close> is true and \<open>response.usage.total_tokens\<close> raises
  \<open>AttributeError\<close> on line 22, before any total is changed.
\<close>

fun add_usage :: "CostTracker \<Rightarrow> usage_attribute \<Rightarrow> error + CostTracker" where
  "add_usage self Missing = Inr self"
| "add_usage self Null = Inl AttributeError"
| "add_usage self (Present u) =
     Inr (self\<lparr>total_tokens := total_tokens self + usage_total_tokens u,
               total_prompt_tokens := total_prompt_tokens self + prompt_tokens u,
               total_completion_tokens := total_completion_tokens self + completion_tokens u\<rparr>)"

text \<open>
  The tracker object after a call of \<open>add_usage\<close>: the updated object when the call
  returns, the object as it was when the call raises.
\<close>

definition recorded :: "CostTracker \<Rightarrow> usage_attribute \<Rightarrow> CostTracker" where
  "recorded self r = (case add_usage self r of Inl e \<Rightarrow> self | Inr self' \<Rightarrow> self')"

section \<open>The chunker\<close>

text \<open>
  \<open>str.isspace\<close> of one code point, as CPython decides it: the characters that
  \<open>str.strip()\<close> removes.
\<close>

definition isspace :: "codepoint \<Rightarrow> bool" where
  "isspace c \<longleftrightarrow>
     (9 \<le> c \<and> c \<le> 13) \<or> (28 \<le> c \<and> c \<le> 32) \<or> c = 133 \<or> c = 160 \<or> c = 5760 \<or>
     (8192 \<le> c \<and> c \<le> 8202) \<or> c = 8232 \<or> c = 8233 \<or> c = 8239 \<or> c = 8287 \<or> c = 12288"

text \<open>\<open>s.strip()\<close>: leading and trailing whitespace removed.\<close>

definition strip :: "str \<Rightarrow> str" where
  "strip s = rev (dropWhile isspace (rev (dropWhile isspace s)))"

text \<open>\<open>s.replace(old, new)\<close> for one-character \<open>old\<close> and \<open>new\<close>.\<close>

definition replace :: "codepoint \<Rightarrow> codepoint \<Rightarrow> str \<Rightarrow> str" where
  "replace old new s = map (\<lambda>c. if c = old then new else c) s"

text \<open>
  \<open>s.split('. ')\<close>: the text is scanned from the left, each occurrence of a period
  followed by a space ends a fragment and is skipped. The result always has at least
  one fragment.
\<close>

definition cons_first :: "codepoint \<Rightarrow> str list \<Rightarrow> str list" where
  "cons_first c fs = (case fs of [] \<Rightarrow> [[c]] | f # rest \<Rightarrow> (c # f) # rest)"

fun split_dot_space :: "str \<Rightarrow> str list" where
  "split_dot_space [] = [[]]"
| "split_dot_space [c] = [[c]]"
| "split_dot_space (c # d # cs) =
     (if c = 46 \<and> d = 32 then [] # split_dot_space cs
      else cons_first c (split_dot_space (d # cs)))"

text \<open>
  The loop of \<open>contextual_chunks\<close> over the sentences, with the list of
  closed chunks and the running buffer \<open>current_chunk\<close> as its state.
\<close>

fun chunk_loop :: "int \<Rightarrow> str list \<Rightarrow> str list \<Rightarrow> str \<Rightarrow> str list \<times> str" where
  "chunk_loop max_chunk_size [] chunks current_chunk = (chunks, current_chunk)"
| "chunk_loop max_chunk_size (sentence # sentences) chunks current_chunk =
     (if int (length current_chunk) + int (length sentence) > max_chunk_size
         \<and> current_chunk \<noteq> []
      then chunk_loop max_chunk_size sentences
             (chunks @ [strip current_chunk]) (sentence @ pystr ''. '')
      else chunk_loop max_chunk_size sentences
             chunks (current_chunk @ sentence @ pystr ''. ''))"

text \<open>The sentences the chunker works on: line 48 of the source.\<close>

definition sentences_of :: "str \<Rightarrow> str list" where
  "sentences_of text = split_dot_space (replace 10 32 text)"

text \<open>
  Lines 48 to 63 of \<open>split_into_contextual_chunks\<close>: the list \<open>chunks\<close> after the
  filter. No operation of these lines can raise on a string and an integer.
\<close>

definition contextual_chunks :: "str \<Rightarrow> int \<Rightarrow> str list" where
  "contextual_chunks text max_chunk_size =
     (let sentences = sentences_of text;
          (chunks, current_chunk) = chunk_loop max_chunk_size sentences [] [];
          chunks = (if current_chunk \<noteq> [] then chunks @ [strip current_chunk] else chunks)
      in filter (\<lambda>chunk. length chunk > 50) chunks)"

text \<open>
  Standard output. \<open>print\<close> encodes its text with the encoding of standard output and
  raises \<open>UnicodeEncodeError\<close> on a character the encoding does not have. The encodings
  in use all contain ASCII; a standard output is given by the other code points it can
  encode.
\<close>

type_synonym stdout = "codepoint \<Rightarrow> bool"

definition can_encode :: "stdout \<Rightarrow> codepoint \<Rightarrow> bool" where
  "can_encode out c \<longleftrightarrow> c < 128 \<or> out c"

definition print :: "stdout \<Rightarrow> str \<Rightarrow> error + unit" where
  "print out s = (if list_all (can_encode out) s then Inr () else Inl UnicodeEncodeError)"

text \<open>Decimal rendering of a non-negative integer, as \<open>str\<close> and the f-strings produce it.\<close>

fun str_nat :: "nat \<Rightarrow> str" where
  "str_nat n = (if n < 10 then [48 + n] else str_nat (n div 10) @ [48 + n mod 10])"

declare str_nat.simps [simp del]

text \<open>
  \<open>split_into_contextual_chunks(text, max_chunk_size)\<close> on a standard output: the list
  of lines 48 to 63, the print of the number of chunks, the print of the first 100
  characters of the first chunk when there is a chunk, and the return of the list.
\<close>

definition split_into_contextual_chunks :: "stdout \<Rightarrow> str \<Rightarrow> int \<Rightarrow> error + str list" where
  "split_into_contextual_chunks out text max_chunk_size =
     (let chunks = contextual_chunks text max_chunk_size in
      case print out (pystr ''Created '' @ str_nat (length chunks) @ pystr '' chunks'') of
        Inl e \<Rightarrow> Inl e
      | Inr _ \<Rightarrow>
          (case chunks of
             [] \<Rightarrow> Inr chunks
           | first # _ \<Rightarrow>
               (case print out (pystr ''First chunk sample: '' @ take 100 first @ pystr ''...'') of
                  Inl e \<Rightarrow> Inl e
                | Inr _ \<Rightarrow> Inr chunks)))"

section \<open>Processing one chunk\<close>

text \<open>\<open>needle in haystack\<close> on strings: the needle occurs as a contiguous substring.\<close>

fun contains :: "str \<Rightarrow> str \<Rightarrow> bool" where
  "contains needle [] = (needle = [])"
| "contains needle (c # cs) = (prefix needle (c # cs) \<or> contains needle cs)"

text \<open>
  What the remote service hands back: the message contents of \<open>response.choices\<close>
  (\<open>None\<close> for a message without content) and the \<open>usage\<close> attribute.
\<close>

record response =
  choices :: "str option list"
  response_usage :: usage_attribute

text \<open>
  The call \<open>client.chat.completions.create(...)\<close>. Its model name, instructions,
  temperature and token bound are constants; the chunk is the only part of the request
  that varies. The service is not a function of the request, so the model indexes it by
  the number of the chunk the call is made for: \<open>client n chunk\<close> is the outcome of the
  call for chunk \<open>n\<close>, an exception or a response.
\<close>

type_synonym client = "nat \<Rightarrow> str \<Rightarrow> error + response"

text \<open>
  The \<open>try\<close> block of \<open>process_chunk\<close>, with the global \<open>cost_tracker\<close> passed through.
  It is left by an exception of the call, by the exception of \<open>add_usage\<close> on a usage
  that is \<open>None\<close>, by \<open>choices[0]\<close> on an empty list and by \<open>.strip()\<close> on a missing
  content; the last two happen after the usage has been recorded. Its prints show the
  chunk number in fixed ASCII text.
\<close>

definition error_tag :: "nat \<Rightarrow> str" where
  "error_tag chunk_number =
     pystr ''[Error processing chunk '' @ str_nat chunk_number @ pystr '']'' @ [10]"

definition process_chunk_try ::
  "str \<Rightarrow> client \<Rightarrow> nat \<Rightarrow> CostTracker \<Rightarrow> (error + str) \<times> CostTracker" where
  "process_chunk_try chunk client chunk_number cost_tracker =
     (case client chunk_number chunk of
        Inl e \<Rightarrow> (Inl e, cost_tracker)
      | Inr response \<Rightarrow>
          (case add_usage cost_tracker (response_usage response) of
             Inl e \<Rightarrow> (Inl e, cost_tracker)
           | Inr cost_tracker \<Rightarrow>
               (case choices response of
                  [] \<Rightarrow> (Inl IndexError, cost_tracker)
                | None # _ \<Rightarrow> (Inl AttributeError, cost_tracker)
                | Some content # _ \<Rightarrow>
                    (let result = strip content in
                     if \<not> contains (pystr ''German:'') result
                        \<or> \<not> contains (pystr ''English:'') result
                     then (Inr (error_tag chunk_number @ result), cost_tracker)
                     else (Inr result, cost_tracker)))))"

text \<open>
  \<open>process_chunk\<close>: every exception of the \<open>try\<close> block becomes the empty string.
  The \<open>except\<close> block prints the exception before it returns. Should that print
  raise, the exception leaves \<open>process_chunk\<close>, \<open>future.result()\<close> raises it and the
  collection loop appends the empty string for the chunk (lines 139 to 141), so the
  result of the chunk is the empty string in both cases.
\<close>

definition process_chunk :: "str \<Rightarrow> client \<Rightarrow> nat \<Rightarrow> CostTracker \<Rightarrow> str \<times> CostTracker" where
  "process_chunk chunk client chunk_number cost_tracker =
     (case process_chunk_try chunk client chunk_number cost_tracker of
        (Inl e, cost_tracker) \<Rightarrow> ([], cost_tracker)
      | (Inr result, cost_tracker) \<Rightarrow> (result, cost_tracker))"

section \<open>The parallel dispatcher\<close>

text \<open>
  \<open>future.result()\<close> of the future submitted for a chunk: the value \<open>process_chunk\<close>
  returned in its worker.
\<close>

definition future_result ::
  "client \<Rightarrow> nat \<times> str \<Rightarrow> CostTracker \<Rightarrow> (error + str) \<times> CostTracker" where
  "future_result client job cost_tracker =
     (case job of (chunk_num, chunk) \<Rightarrow>
        (case process_chunk chunk client chunk_num cost_tracker of
           (result, cost_tracker) \<Rightarrow> (Inr result, cost_tracker)))"

text \<open>
  The collection loop of \<open>process_chunks_parallel\<close>. Its first list is what
  \<open>as_completed\<close> yields: the submitted jobs \<open>(chunk_num, chunk)\<close> in the order in which
  their futures finish. The workers are serialised in that order.
\<close>

fun collect ::
  "client \<Rightarrow> (nat \<times> str) list \<Rightarrow> str list \<Rightarrow> CostTracker \<Rightarrow> str list \<times> CostTracker" where
  "collect client [] results cost_tracker = (results, cost_tracker)"
| "collect client (job # jobs) results cost_tracker =
     (case future_result client job cost_tracker of
        (Inr result, cost_tracker) \<Rightarrow> collect client jobs (results @ [result]) cost_tracker
      | (Inl e, cost_tracker) \<Rightarrow> collect client jobs (results @ [[]]) cost_tracker)"

text \<open>
  \<open>process_chunks_parallel\<close>. The jobs are submitted in chunk order, numbered from 1.
  The thread pool decides the order of completion; it is the parameter \<open>as_completed\<close>,
  which returns the submitted jobs in some order.
\<close>

definition process_chunks_parallel ::
  "((nat \<times> str) list \<Rightarrow> (nat \<times> str) list) \<Rightarrow> client \<Rightarrow> str list \<Rightarrow> CostTracker
     \<Rightarrow> str list \<times> CostTracker" where
  "process_chunks_parallel as_completed client chunks cost_tracker =
     (let future_to_chunk = enumerate 1 chunks
      in collect client (as_completed future_to_chunk) [] cost_tracker)"

text \<open>
  A completion order for a list of chunks returns every job submitted for them exactly
  once.
\<close>

definition completion_order ::
  "((nat \<times> str) list \<Rightarrow> (nat \<times> str) list) \<Rightarrow> str list \<Rightarrow> bool" where
  "completion_order as_completed chunks \<longleftrightarrow>
     mset (as_completed (enumerate 1 chunks)) = mset (enumerate 1 chunks)"

section \<open>Aggregation\<close>

text \<open>\<open>sep.join(parts)\<close>.\<close>

fun join :: "str \<Rightarrow> str list \<Rightarrow> str" where
  "join sep [] = []"
| "join sep [part] = part"
| "join sep (part # parts) = part @ sep @ join sep parts"

definition separator :: str where
  "separator = [10, 10, 45, 45, 45, 10, 10]"

text \<open>Line 158 of \<open>reformat_text\<close>: the empty results are dropped, the others joined.\<close>

definition kept :: "str list \<Rightarrow> str list" where
  "kept results = filter (\<lambda>r. r \<noteq> []) results"

definition formatted_text :: "str list \<Rightarrow> str" where
  "formatted_text results = join separator (kept results)"

section \<open>The report\<close>

text \<open>Zero padding on the left up to a width.\<close>

definition zfill :: "nat \<Rightarrow> str \<Rightarrow> str" where
  "zfill width s = replicate (width - length s) 48 @ s"

text \<open>The format \<open>02d\<close> of an integer; the sign counts towards the width.\<close>

definition fmt_02d :: "int \<Rightarrow> str" where
  "fmt_02d n = (if n < 0 then 45 # zfill 1 (str_nat (nat (- n))) else zfill 2 (str_nat (nat n)))"

text \<open>Rounding to the nearest integer, ties to the even one, as float formatting rounds.\<close>

definition round_half_even :: "real \<Rightarrow> int" where
  "round_half_even x =
     (let f = \<lfloor>x\<rfloor>; d = x - of_int f
      in if d < 1 / 2 then f else if d > 1 / 2 then f + 1 else if even f then f else f + 1)"

text \<open>
  The format \<open>05.2f\<close>: two decimals, zero padded to five characters, the sign counting
  towards the width.
\<close>

definition fixed2 :: "real \<Rightarrow> str" where
  "fixed2 x =
     (let hundredths = nat (round_half_even (x * 100))
      in str_nat (hundredths div 100) @ [46] @ zfill 2 (str_nat (hundredths mod 100)))"

definition fmt_05_2f :: "real \<Rightarrow> str" where
  "fmt_05_2f x = (if x < 0 then 45 # zfill 4 (fixed2 (- x)) else zfill 5 (fixed2 x))"

text \<open>The format \<open>,\<close> of an integer: groups of three digits separated by commas.\<close>

fun group3 :: "str \<Rightarrow> str" where
  "group3 (a # b # c # d # rest) = a # b # c # 44 # group3 (d # rest)"
| "group3 digits = digits"

definition fmt_commas :: "int \<Rightarrow> str" where
  "fmt_commas n =
     (if n < 0 then 45 # rev (group3 (rev (str_nat (nat (- n)))))
      else rev (group3 (rev (str_nat (nat n)))))"

text \<open>
  \<open>divmod\<close> of a float by a positive constant: the quotient rounded down and the
  remainder. Both are exact on floats, so the model computes them on the real number.
\<close>

definition divmod :: "real \<Rightarrow> real \<Rightarrow> int \<times> real" where
  "divmod x y = (let q = \<lfloor>x / y\<rfloor> in (q, x - of_int q * y))"

text \<open>The elapsed time of line 38, from the duration in seconds.\<close>

definition elapsed :: "real \<Rightarrow> str" where
  "elapsed duration =
     (let (hours, remainder) = divmod duration 3600;
          (minutes, seconds) = divmod remainder 60
      in fmt_02d hours @ [58] @ fmt_02d minutes @ [58] @ fmt_05_2f seconds)"

text \<open>
  The six lines of \<open>CostTracker.report\<close>. \<open>now\<close> is the value of \<open>time.time()\<close>.
  The estimated cost is a product of floats with the rates 0.005 and 0.015, which exact
  arithmetic does not reproduce at rounding ties; its rendering is the parameter
  \<open>cost_text\<close>, applied to the prompt and completion totals.
\<close>

definition report_lines :: "CostTracker \<Rightarrow> real \<Rightarrow> (int \<Rightarrow> int \<Rightarrow> str) \<Rightarrow> str list" where
  "report_lines self now cost_text =
     (let duration = now - start_time self
      in [pystr ''Processing Summary:'',
          pystr ''Total time: '' @ elapsed duration,
          pystr ''Prompt tokens: '' @ fmt_commas (total_prompt_tokens self),
          pystr ''Completion tokens: '' @ fmt_commas (total_completion_tokens self),
          pystr ''Total tokens processed: '' @ fmt_commas (total_tokens self),
          pystr ''Estimated total cost: $'' @
            cost_text (total_prompt_tokens self) (total_completion_tokens self)])"

text \<open>\<open>CostTracker.report\<close>: the lines, separated by newlines.\<close>

definition report :: "CostTracker \<Rightarrow> real \<Rightarrow> (int \<Rightarrow> int \<Rightarrow> str) \<Rightarrow> str" where
  "report self now cost_text = join [10] (report_lines self now cost_text)"

section \<open>Predicates of the specification\<close>

text \<open>
  The string \<open>process_chunk\<close> returns for the job \<open>(chunk_num, chunk)\<close>. It is the
  same for every state of the tracker.
\<close>

definition chunk_result :: "client \<Rightarrow> nat \<times> str \<Rightarrow> str" where
  "chunk_result client job = fst (process_chunk (snd job) client (fst job) (init 0))"

text \<open>
  An exception is raised while the call for a chunk is performed: by the service, by
  \<open>add_usage\<close> on a usage that is \<open>None\<close>, by \<open>choices[0]\<close> on an empty list, or by
  \<open>.strip()\<close> on a missing content.
\<close>

definition call_raises :: "client \<Rightarrow> nat \<Rightarrow> str \<Rightarrow> bool" where
  "call_raises client n chunk \<longleftrightarrow>
     (case client n chunk of
        Inl e \<Rightarrow> True
      | Inr response \<Rightarrow>
          response_usage response = Null \<or>
          (case choices response of
             [] \<Rightarrow> True
           | None # _ \<Rightarrow> True
           | Some content # _ \<Rightarrow> False))"

text \<open>
  The number of occurrences of a pattern in a string: the positions at which the
  pattern starts.
\<close>

fun occurrences :: "str \<Rightarrow> str \<Rightarrow> nat" where
  "occurrences p [] = (if p = [] then 1 else 0)"
| "occurrences p (c # cs) = (if prefix p (c # cs) then 1 else 0) + occurrences p cs"

text \<open>Three consecutive hyphens, the rule inside the separator.\<close>

definition hyphens :: str where
  "hyphens = [45, 45, 45]"

text \<open>The totals of a tracker, and the counts of a usage record, add up.\<close>

definition tokens_consistent :: "CostTracker \<Rightarrow> bool" where
  "tokens_consistent self \<longleftrightarrow>
     total_tokens self = total_prompt_tokens self + total_completion_tokens self"

definition usage_consistent :: "usage_attribute \<Rightarrow> bool" where
  "usage_consistent r \<longleftrightarrow>
     (case r of Present u \<Rightarrow> usage_total_tokens u = prompt_tokens u + completion_tokens u
      | _ \<Rightarrow> True)"

section \<open>Invariants of the chunker loop\<close>

text \<open>A closed chunk is not empty and ends with a period.\<close>

definition ends_dot :: "str \<Rightarrow> bool" where
  "ends_dot chunk \<longleftrightarrow> chunk \<noteq> [] \<and> last chunk = 46"

text \<open>The running buffer is empty or ends with the restored delimiter.\<close>

definition buffer_closed :: "str \<Rightarrow> bool" where
  "buffer_closed current_chunk \<longleftrightarrow> current_chunk = [] \<or> suffix [46, 32] current_chunk"

text \<open>
  A chunk is at most one character over the bound \<open>m\<close>, or it is one oversized sentence
  of \<open>S\<close> with its delimiter, stripped.
\<close>

definition chunk_ok :: "int \<Rightarrow> str list \<Rightarrow> str \<Rightarrow> bool" where
  "chunk_ok m S chunk \<longleftrightarrow>
     int (length chunk) \<le> m + 1 \<or>
     (\<exists>f\<in>set S. m < int (length f) \<and> chunk = strip (f @ [46, 32]))"

text \<open>
  The running buffer is empty, or one sentence of \<open>S\<close> with its delimiter, or at most
  \<open>m\<close> characters followed by the delimiter.
\<close>

definition buffer_ok :: "int \<Rightarrow> str list \<Rightarrow> str \<Rightarrow> bool" where
  "buffer_ok m S current_chunk \<longleftrightarrow>
     current_chunk = [] \<or> (\<exists>f\<in>set S. current_chunk = f @ [46, 32]) \<or>
     (\<exists>u. current_chunk = u @ [46, 32] \<and> int (length u) \<le> m)"

section \<open>Examples\<close>

text \<open>
  A standard output with the encoding UTF-8: it encodes every code point except the
  surrogates.
\<close>

definition utf8 :: stdout where
  "utf8 c \<longleftrightarrow> c < 55296 \<or> (57343 < c \<and> c < 1114112)"


text \<open>A service that answers every chunk with both markers followed by the chunk.\<close>

definition echo :: client where
  "echo n chunk =
     Inr \<lparr>choices = [Some (pystr ''German: English: '' @ chunk)], response_usage = Missing\<rparr>"

text \<open>A service whose call for the first chunk raises.\<close>

definition flaky :: client where
  "flaky n chunk = (if n = 1 then Inl (RemoteError (pystr ''timeout'')) else echo n chunk)"

text \<open>A service whose answer has both markers and a rule of its own between them.\<close>

definition ruler :: client where
  "ruler n chunk =
     Inr \<lparr>choices = [Some (pystr ''German: a'' @ separator @ pystr ''English: b'')],
          response_usage = Missing\<rparr>"

text \<open>
  A service that returns the chunk itself, surrounded by blanks, in a response whose
  usage is \<open>None\<close>.
\<close>

definition hush :: client where
  "hush n chunk = Inr \<lparr>choices = [Some ([32] @ chunk @ [10])], response_usage = Null\<rparr>"

text \<open>A service that returns the chunk itself, surrounded by blanks.\<close>

definition parrot :: client where
  "parrot n chunk = Inr \<lparr>choices = [Some ([32] @ chunk @ [10])], response_usage = Missing\<rparr>"

section \<open>Properties of the cost tracker\<close>

text \<open>
  C7. Recording two responses in either order leaves the same tracker, whatever their
  usage attributes are. A usage record is always recorded, and recording two usage
  records adds the sums of their counts to the totals. Starting from a fresh tracker,
  the usage records (10, 5, 15) and (20, 10, 30) give the totals (30, 15, 45) in both
  orders.
\<close>

theorem add_usage_commutes:
  "recorded (recorded self r1) r2 = recorded (recorded self r2) r1
   \<and> add_usage self (Present a) = Inr (recorded self (Present a))
   \<and> recorded (recorded self (Present a)) (Present b)
       = self\<lparr>total_tokens := total_tokens self + (usage_total_tokens a + usage_total_tokens b),
              total_prompt_tokens := total_prompt_tokens self + (prompt_tokens a + prompt_tokens b),
              total_completion_tokens :=
                total_completion_tokens self + (completion_tokens a + completion_tokens b)\<rparr>
   \<and> recorded
        (recorded (init now)
           (Present \<lparr>prompt_tokens = 10, completion_tokens = 5, usage_total_tokens = 15\<rparr>))
        (Present \<lparr>prompt_tokens = 20, completion_tokens = 10, usage_total_tokens = 30\<rparr>)
       = \<lparr>start_time = now, total_tokens = 45, total_prompt_tokens = 30,
            total_completion_tokens = 15\<rparr>
   \<and> recorded
        (recorded (init now)
           (Present \<lparr>prompt_tokens = 20, completion_tokens = 10, usage_total_tokens = 30\<rparr>))
        (Present \<lparr>prompt_tokens = 10, completion_tokens = 5, usage_total_tokens = 15\<rparr>)
       = \<lparr>start_time = now, total_tokens = 45, total_prompt_tokens = 30,
            total_completion_tokens = 15\<rparr>"
  by (cases r1; cases r2) (simp_all add: recorded_def init_def)

text \<open>
  The same for any number of responses: two recording orders of the same responses end
  in the same tracker.
\<close>

lemma recorded_swap:
  "recorded (recorded self r1) r2 = recorded (recorded self r2) r1"
  by (cases r1; cases r2) (simp_all add: recorded_def)

lemma record_any_order:
  assumes "mset rs = mset rs'"
  shows "fold (\<lambda>r self. recorded self r) rs self = fold (\<lambda>r self. recorded self r) rs' self"
proof -
  have "fold (\<lambda>r self. recorded self r) rs = fold (\<lambda>r self. recorded self r) rs'"
    by (rule fold_multiset_equiv [OF _ assms]) (simp add: fun_eq_iff recorded_swap)
  then show ?thesis by simp
qed

text \<open>
  C10. A fresh tracker has \<open>total_tokens = total_prompt_tokens + total_completion_tokens\<close>,
  and a call of \<open>add_usage\<close> keeps the equation when the recorded usage satisfies it:
  in the tracker the call returns, and in the tracker it leaves behind when it raises.
\<close>

theorem tokens_consistent_invariant:
  "tokens_consistent (init now) \<and>
   (tokens_consistent self \<and> usage_consistent r \<longrightarrow>
      tokens_consistent (recorded self r)
      \<and> (\<forall>self'. add_usage self r = Inr self' \<longrightarrow> tokens_consistent self'))"
  by (cases r) (simp_all add: tokens_consistent_def usage_consistent_def init_def recorded_def)

theorem tokens_consistent_invariant_witness:
  "tokens_consistent (init 0)
   \<and> usage_consistent (Present \<lparr>prompt_tokens = 10, completion_tokens = 5, usage_total_tokens = 15\<rparr>)
   \<and> add_usage (init 0)
         (Present \<lparr>prompt_tokens = 10, completion_tokens = 5, usage_total_tokens = 15\<rparr>)
       = Inr \<lparr>start_time = 0, total_tokens = 15, total_prompt_tokens = 10,
              total_completion_tokens = 5\<rparr>
   \<and> tokens_consistent \<lparr>start_time = 0, total_tokens = 15, total_prompt_tokens = 10,
              total_completion_tokens = 5\<rparr>"
proof -
  let ?r = "Present \<lparr>prompt_tokens = 10, completion_tokens = 5, usage_total_tokens = 15\<rparr>"
  let ?t = "\<lparr>start_time = 0, total_tokens = 15, total_prompt_tokens = 10,
              total_completion_tokens = 5\<rparr>"
  note t = tokens_consistent_invariant [of 0 "init 0" ?r]
  have u: "usage_consistent ?r"
    by (simp add: usage_consistent_def)
  have a: "add_usage (init 0) ?r = Inr ?t"
    by (simp add: init_def)
  from t have i: "tokens_consistent (init 0)"
    by (elim conjE)
  from t have "tokens_consistent (init 0) \<and> usage_consistent ?r \<longrightarrow>
      tokens_consistent (recorded (init 0) ?r)
      \<and> (\<forall>self'. add_usage (init 0) ?r = Inr self' \<longrightarrow> tokens_consistent self')"
    by (elim conjE)
  with i u have "\<forall>self'. add_usage (init 0) ?r = Inr self' \<longrightarrow> tokens_consistent self'"
    by (elim impE conjE) (intro conjI)
  with a have c: "tokens_consistent ?t"
    by (elim allE impE)
  from i u a c show ?thesis
    by (intro conjI)
qed


section \<open>Properties of the chunker\<close>

lemma pystr_dot_space: "pystr ''. '' = [46, 32]"
  by (simp add: pystr_def)

lemma not_isspace_dot: "\<not> isspace 46"
  by (simp add: isspace_def)

lemma isspace_space: "isspace 32"
  by (simp add: isspace_def)

lemma strip_dot_space: "strip (u @ [46, 32]) = dropWhile isspace u @ [46]"
proof -
  have "dropWhile isspace (u @ 46 # [32]) = dropWhile isspace u @ 46 # [32]"
    by (rule dropWhile_append3) (rule not_isspace_dot)
  then show ?thesis
    by (simp add: strip_def not_isspace_dot isspace_space)
qed

lemma split_dot_space_no_dot: "46 \<notin> set s \<Longrightarrow> split_dot_space s = [s]"
  by (induction s rule: split_dot_space.induct) (simp_all add: cons_first_def)

lemma split_dot_space_append:
  "46 \<notin> set s \<Longrightarrow> split_dot_space (s @ 46 # 32 # t) = s # split_dot_space t"
proof (induction s)
  case Nil
  then show ?case by simp
next
  case (Cons c s)
  then have "split_dot_space (s @ 46 # 32 # t) = s # split_dot_space t" and "c \<noteq> 46"
    by auto
  then show ?case
    by (cases s) (simp_all add: cons_first_def)
qed

lemma replace_absent: "old \<notin> set s \<Longrightarrow> replace old new s = s"
  by (induction s) (auto simp: replace_def)

text \<open>A text of one long sentence gives one chunk, whatever the maximum.\<close>

lemma one_sentence:
  assumes a: "a \<noteq> []" "\<not> isspace (hd a)" "46 \<notin> set a" "10 \<notin> set a"
    and long: "50 \<le> length a"
  shows "contextual_chunks a m = [a @ [46]]"
proof -
  have s: "sentences_of a = [a]"
    using a by (simp add: sentences_of_def replace_absent split_dot_space_no_dot)
  have "dropWhile isspace a = a"
    using a by (cases a) simp_all
  then have st: "strip (a @ [46, 32]) = a @ [46]"
    by (simp add: strip_dot_space)
  have lp: "chunk_loop m [a] [] [] = ([], a @ [46, 32])"
    by (simp add: pystr_dot_space)
  have "contextual_chunks a m
          = filter (\<lambda>chunk. length chunk > 50) [strip (a @ [46, 32])]"
    unfolding contextual_chunks_def Let_def s lp by simp
  then show ?thesis
    using long by (simp add: st)
qed

subsection \<open>Printing and returning\<close>

lemma str_nat_ascii: "\<forall>c\<in>set (str_nat n). c < 128"
proof (induction n rule: str_nat.induct)
  case (1 n)
  show ?case
  proof (cases "n < 10")
    case True
    then show ?thesis by (subst str_nat.simps) simp
  next
    case False
    have "n mod 10 < 10" by simp
    then have "48 + n mod 10 < 128" by linarith
    with False 1 show ?thesis by (subst str_nat.simps) simp
  qed
qed

lemma print_encodable: "list_all (can_encode out) s \<Longrightarrow> print out s = Inr ()"
  by (simp add: print_def)

lemma print_count: "print out (pystr ''Created '' @ str_nat k @ pystr '' chunks'') = Inr ()"
proof -
  have "list_all (can_encode out) (str_nat k)"
    using str_nat_ascii [of k] by (simp add: list_all_iff can_encode_def)
  then show ?thesis
    by (simp add: print_def pystr_def can_encode_def)
qed

lemma print_sample:
  "print out (pystr ''First chunk sample: '' @ take 100 first @ pystr ''...'')
     = (if list_all (can_encode out) (take 100 first) then Inr () else Inl UnicodeEncodeError)"
  by (simp add: print_def pystr_def can_encode_def)

text \<open>The call returns the list unless the sample of the first chunk cannot be printed.\<close>

lemma split_cases:
  "split_into_contextual_chunks out text m =
     (case contextual_chunks text m of
        [] \<Rightarrow> Inr []
      | first # rest \<Rightarrow>
          if list_all (can_encode out) (take 100 first) then Inr (first # rest)
          else Inl UnicodeEncodeError)"
  by (simp add: split_into_contextual_chunks_def print_count print_sample split: list.splits)

lemma split_returns:
  "split_into_contextual_chunks out text m = Inr chunks \<Longrightarrow> chunks = contextual_chunks text m"
  by (auto simp: split_cases split: list.splits if_splits)

text \<open>The characters of a chunk are characters of the text, spaces and periods.\<close>

lemma set_cons_first: "\<Union> (set ` set (cons_first c fs)) = insert c (\<Union> (set ` set fs))"
  by (cases fs) (auto simp: cons_first_def)

lemma set_split_dot_space: "\<Union> (set ` set (split_dot_space s)) \<subseteq> set s"
  by (induction s rule: split_dot_space.induct) (auto simp: set_cons_first)

lemma set_replace: "set (replace 10 32 s) \<subseteq> insert 32 (set s)"
  by (auto simp: replace_def)

lemma set_strip: "set (strip s) \<subseteq> set s"
proof -
  have "set (dropWhile isspace (rev (dropWhile isspace s))) \<subseteq> set (rev (dropWhile isspace s))"
    by (auto dest: set_dropWhileD)
  moreover have "set (dropWhile isspace s) \<subseteq> set s"
    by (auto dest: set_dropWhileD)
  ultimately show ?thesis
    by (auto simp: strip_def)
qed

lemma chunk_loop_chars:
  assumes "chunk_loop m ss chunks cur = (chunks', cur')"
    and "\<forall>s\<in>set ss. set s \<subseteq> A" and "46 \<in> A" and "32 \<in> A"
    and "\<forall>c\<in>set chunks. set c \<subseteq> A" and "set cur \<subseteq> A"
  shows "(\<forall>c\<in>set chunks'. set c \<subseteq> A) \<and> set cur' \<subseteq> A"
  using assms
proof (induction ss arbitrary: chunks cur)
  case Nil
  then show ?case by simp
next
  case (Cons s ss)
  have s: "set s \<subseteq> A" and ss: "\<forall>s\<in>set ss. set s \<subseteq> A"
    using Cons.prems(2) by simp_all
  have strip: "set (strip cur) \<subseteq> A"
    using set_strip [of cur] Cons.prems(6) by blast
  show ?case
  proof (cases "int (length cur) + int (length s) > m \<and> cur \<noteq> []")
    case True
    with Cons.prems(1) have run: "chunk_loop m ss (chunks @ [strip cur]) (s @ [46, 32]) = (chunks', cur')"
      by (simp add: pystr_dot_space)
    show ?thesis
      by (rule Cons.IH [OF run ss Cons.prems(3,4)]) (use s strip Cons.prems(3,4,5) in auto)
  next
    case False
    with Cons.prems(1) have run: "chunk_loop m ss chunks (cur @ s @ [46, 32]) = (chunks', cur')"
      by (auto simp add: pystr_dot_space)
    show ?thesis
      by (rule Cons.IH [OF run ss Cons.prems(3,4,5)]) (use s Cons.prems(3,4,6) in auto)
  qed
qed

lemma contextual_chunks_chars:
  "\<forall>chunk\<in>set (contextual_chunks text m). set chunk \<subseteq> insert 46 (insert 32 (set text))"
proof -
  let ?A = "insert 46 (insert 32 (set text))"
  obtain chunks cur where run: "chunk_loop m (sentences_of text) [] [] = (chunks, cur)"
    by (cases "chunk_loop m (sentences_of text) [] []")
  have "\<Union> (set ` set (sentences_of text)) \<subseteq> insert 32 (set text)"
    unfolding sentences_of_def using set_split_dot_space set_replace by blast
  then have sent: "\<forall>s\<in>set (sentences_of text). set s \<subseteq> ?A"
    by auto
  have inv: "(\<forall>c\<in>set chunks. set c \<subseteq> ?A) \<and> set cur \<subseteq> ?A"
    by (rule chunk_loop_chars [OF run sent]) simp_all
  moreover have "set (strip cur) \<subseteq> ?A"
    using set_strip [of cur] inv by blast
  ultimately have "\<forall>c\<in>set (if cur \<noteq> [] then chunks @ [strip cur] else chunks). set c \<subseteq> ?A"
    by simp
  then show ?thesis
    by (simp add: contextual_chunks_def run)
qed

lemma split_encodable_text:
  assumes "list_all (can_encode out) text"
  shows "split_into_contextual_chunks out text m = Inr (contextual_chunks text m)"
proof (cases "contextual_chunks text m")
  case Nil
  then show ?thesis by (simp add: split_cases)
next
  case (Cons first rest)
  then have "set first \<subseteq> insert 46 (insert 32 (set text))"
    using contextual_chunks_chars [of "text" m] by simp
  moreover have "\<forall>c\<in>insert 46 (insert 32 (set text)). can_encode out c"
    using assms by (simp add: list_all_iff can_encode_def)
  ultimately have "\<forall>c\<in>set first. can_encode out c"
    by blast
  then have "list_all (can_encode out) (take 100 first)"
    by (auto simp: list_all_iff dest: in_set_takeD)
  with Cons show ?thesis by (simp add: split_cases)
qed



subsection \<open>Every chunk ends with a period\<close>

lemma ends_dot_strip: "buffer_closed cur \<Longrightarrow> cur \<noteq> [] \<Longrightarrow> ends_dot (strip cur)"
  by (auto simp: buffer_closed_def ends_dot_def suffix_def strip_dot_space)

lemma chunk_loop_ends_dot:
  assumes "chunk_loop m ss chunks cur = (chunks', cur')"
    and "\<forall>c\<in>set chunks. ends_dot c" and "buffer_closed cur"
  shows "(\<forall>c\<in>set chunks'. ends_dot c) \<and> buffer_closed cur'"
  using assms
proof (induction ss arbitrary: chunks cur)
  case Nil
  then show ?case by simp
next
  case (Cons s ss)
  show ?case
  proof (cases "int (length cur) + int (length s) > m \<and> cur \<noteq> []")
    case True
    with Cons.prems(1) have run: "chunk_loop m ss (chunks @ [strip cur]) (s @ [46, 32]) = (chunks', cur')"
      by (simp add: pystr_dot_space)
    have "\<forall>c\<in>set (chunks @ [strip cur]). ends_dot c"
      using Cons.prems(2,3) True by (simp add: ends_dot_strip)
    moreover have "buffer_closed (s @ [46, 32])"
      by (simp add: buffer_closed_def suffix_def)
    ultimately show ?thesis
      using Cons.IH [OF run] by blast
  next
    case False
    with Cons.prems(1) have run: "chunk_loop m ss chunks (cur @ s @ [46, 32]) = (chunks', cur')"
      by (auto simp add: pystr_dot_space)
    have "buffer_closed (cur @ s @ [46, 32])"
      by (simp add: buffer_closed_def suffix_def)
    then show ?thesis
      using Cons.IH [OF run Cons.prems(2)] by blast
  qed
qed

text \<open>
  C9. Every chunk of the list computed by \<open>split_into_contextual_chunks\<close> ends with
  the character \<open>.\<close> (code point 46), for every text and every maximum size; so does
  every chunk of a list the call returns.
\<close>

theorem chunks_end_with_dot:
  "(\<forall>chunk \<in> set (contextual_chunks text max_chunk_size). chunk \<noteq> [] \<and> last chunk = 46)
   \<and> (\<forall>chunks. split_into_contextual_chunks out text max_chunk_size = Inr chunks \<longrightarrow>
         (\<forall>chunk \<in> set chunks. chunk \<noteq> [] \<and> last chunk = 46))"
proof -
  obtain chunks cur where run:
    "chunk_loop max_chunk_size (sentences_of text) [] [] = (chunks, cur)"
    by (cases "chunk_loop max_chunk_size (sentences_of text) [] []")
  have inv: "(\<forall>c\<in>set chunks. ends_dot c) \<and> buffer_closed cur"
    by (rule chunk_loop_ends_dot [OF run]) (simp_all add: buffer_closed_def)
  then have "\<forall>c\<in>set (if cur \<noteq> [] then chunks @ [strip cur] else chunks). ends_dot c"
    by (simp add: ends_dot_strip)
  then have "\<forall>c\<in>set (contextual_chunks text max_chunk_size). ends_dot c"
    by (simp add: contextual_chunks_def run)
  then have computed:
    "\<forall>chunk \<in> set (contextual_chunks text max_chunk_size). chunk \<noteq> [] \<and> last chunk = 46"
    unfolding ends_dot_def .
  have "\<forall>chunk \<in> set returned. chunk \<noteq> [] \<and> last chunk = 46"
    if "split_into_contextual_chunks out text max_chunk_size = Inr returned" for returned
    using computed split_returns [OF that] by simp
  with computed show ?thesis
    by blast
qed

theorem chunks_end_with_dot_witness:
  "replicate 60 97 @ [46] \<in> set (contextual_chunks (replicate 60 97) 400)
   \<and> split_into_contextual_chunks utf8 (replicate 60 97) 400 = Inr [replicate 60 97 @ [46]]
   \<and> replicate 60 (97::nat) @ [46] \<noteq> [] \<and> last (replicate 60 (97::nat) @ [46]) = 46"
proof -
  let ?chunk = "replicate 60 (97::nat) @ [46]"
  have c: "contextual_chunks (replicate 60 97) 400 = [?chunk]"
    by (rule one_sentence) (simp_all add: isspace_def)
  then have m: "?chunk \<in> set (contextual_chunks (replicate 60 97) 400)"
    by simp
  have "list_all (can_encode utf8) (replicate 60 97)"
    by (simp add: list_all_iff can_encode_def)
  then have r: "split_into_contextual_chunks utf8 (replicate 60 97) 400 = Inr [?chunk]"
    by (simp add: split_encodable_text c)
  note t = chunks_end_with_dot [of "replicate 60 97" 400 utf8]
  from t have "\<forall>chunks. split_into_contextual_chunks utf8 (replicate 60 97) 400 = Inr chunks \<longrightarrow>
         (\<forall>chunk \<in> set chunks. chunk \<noteq> [] \<and> last chunk = 46)"
    by (elim conjE)
  with r have "\<forall>chunk \<in> set [?chunk]. chunk \<noteq> [] \<and> last chunk = 46"
    by (elim allE impE)
  then have e: "?chunk \<noteq> [] \<and> last ?chunk = 46"
    by simp
  from m r e show ?thesis
    by (intro conjI) (elim conjE, assumption)+
qed

subsection \<open>The size of a chunk\<close>

lemma two_fragments_overshoot:
  assumes a: "a \<noteq> []" "\<not> isspace (hd a)" "46 \<notin> set a" "10 \<notin> set a"
    and b: "46 \<notin> set b" "10 \<notin> set b"
    and fits: "int (length a) + 2 + int (length b) = m"
    and long: "48 \<le> length a + length b"
  shows "sentences_of (a @ 46 # 32 # b) = [a, b]"
    and "contextual_chunks (a @ 46 # 32 # b) m = [a @ 46 # 32 # b @ [46]]"
proof -
  have "replace 10 32 (a @ 46 # 32 # b) = a @ 46 # 32 # b"
    using a b by (intro replace_absent) simp
  then show s: "sentences_of (a @ 46 # 32 # b) = [a, b]"
    using a b by (simp add: sentences_of_def split_dot_space_append split_dot_space_no_dot)
  have first: "dropWhile isspace (a @ 46 # 32 # b) = a @ 46 # 32 # b"
    using a by (cases a) simp_all
  have "strip ((a @ 46 # 32 # b) @ [46, 32]) = dropWhile isspace (a @ 46 # 32 # b) @ [46]"
    by (rule strip_dot_space)
  then have st: "strip (a @ 46 # 32 # b @ [46, 32]) = a @ 46 # 32 # b @ [46]"
    by (simp add: first)
  have lp: "chunk_loop m [a, b] [] [] = ([], a @ 46 # 32 # b @ [46, 32])"
    using fits a by (simp add: pystr_dot_space)
  have "contextual_chunks (a @ 46 # 32 # b) m
          = filter (\<lambda>chunk. length chunk > 50) [strip (a @ 46 # 32 # b @ [46, 32])]"
    unfolding contextual_chunks_def Let_def s lp using a by simp
  then show "contextual_chunks (a @ 46 # 32 # b) m = [a @ 46 # 32 # b @ [46]]"
    using long by (simp add: st)
qed

text \<open>
  C2. A chunk is to be at most the maximum size unless it is one sentence that is
  longer than the maximum by itself. With the default maximum of 400, a text of two
  sentences of 198 and 200 characters is split into these two sentences, neither longer
  than 400, and the chunker returns them as one chunk of 401 characters, on every
  standard output.
\<close>

theorem chunk_of_401:
  "sentences_of (replicate 198 97 @ pystr ''. '' @ replicate 200 98)
     = [replicate 198 97, replicate 200 98]
   \<and> contextual_chunks (replicate 198 97 @ pystr ''. '' @ replicate 200 98) 400
     = [replicate 198 97 @ pystr ''. '' @ replicate 200 98 @ pystr ''.'']
   \<and> split_into_contextual_chunks out (replicate 198 97 @ pystr ''. '' @ replicate 200 98) 400
     = Inr [replicate 198 97 @ pystr ''. '' @ replicate 200 98 @ pystr ''.'']
   \<and> length (replicate 198 97 @ pystr ''. '' @ replicate 200 98 @ pystr ''.'') = (401::nat)"
proof -
  let ?text = "replicate 198 97 @ 46 # 32 # replicate 200 98"
  have ne: "replicate 198 (97::nat) \<noteq> []" by simp
  have hd: "\<not> isspace (hd (replicate 198 97))" by (simp add: isspace_def)
  have s: "sentences_of ?text = [replicate 198 97, replicate 200 98]"
    and c: "contextual_chunks ?text 400 = [replicate 198 97 @ 46 # 32 # replicate 200 98 @ [46]]"
    using two_fragments_overshoot [of "replicate 198 97" "replicate 200 98" 400] ne hd
    by (simp_all add: isspace_def)
  have "list_all (can_encode out) ?text"
    by (simp add: list_all_iff can_encode_def)
  then have "split_into_contextual_chunks out ?text 400 = Inr (contextual_chunks ?text 400)"
    by (rule split_encodable_text)
  with s c show ?thesis
    by (simp add: pystr_def)
qed

text \<open>
  The guard of the loop compares the buffer and the sentence with the maximum but not
  the delimiter appended with the sentence. What holds for every text and every maximum
  is the bound one character higher.
\<close>

lemma length_strip_dot_space: "length (strip (u @ [46, 32])) \<le> length u + 1"
  by (simp add: strip_dot_space length_dropWhile_le)
lemma chunk_ok_strip:
  assumes "buffer_ok m S cur" and "cur \<noteq> []"
  shows "chunk_ok m S (strip cur)"
proof -
  consider f where "f \<in> set S" "cur = f @ [46, 32]"
    | u where "cur = u @ [46, 32]" "int (length u) \<le> m"
    using assms by (auto simp: buffer_ok_def)
  then show ?thesis
  proof cases
    case 1
    show ?thesis
    proof (cases "m < int (length f)")
      case True
      with 1 show ?thesis by (auto simp: chunk_ok_def)
    next
      case False
      have "length (strip cur) \<le> length f + 1"
        unfolding 1 by (rule length_strip_dot_space)
      with False show ?thesis by (simp add: chunk_ok_def)
    qed
  next
    case 2
    have "length (strip cur) \<le> length u + 1"
      unfolding 2 by (rule length_strip_dot_space)
    with 2 show ?thesis by (simp add: chunk_ok_def)
  qed
qed

lemma chunk_loop_ok:
  assumes "chunk_loop m ss chunks cur = (chunks', cur')"
    and "set ss \<subseteq> set S"
    and "\<forall>c\<in>set chunks. chunk_ok m S c" and "buffer_ok m S cur"
  shows "(\<forall>c\<in>set chunks'. chunk_ok m S c) \<and> buffer_ok m S cur'"
  using assms
proof (induction ss arbitrary: chunks cur)
  case Nil
  then show ?case by simp
next
  case (Cons s ss)
  from Cons.prems(2) have sub: "set ss \<subseteq> set S" and mem: "s \<in> set S"
    by simp_all
  show ?case
  proof (cases "int (length cur) + int (length s) > m \<and> cur \<noteq> []")
    case True
    with Cons.prems(1) have run: "chunk_loop m ss (chunks @ [strip cur]) (s @ [46, 32]) = (chunks', cur')"
      by (simp add: pystr_dot_space)
    have "\<forall>c\<in>set (chunks @ [strip cur]). chunk_ok m S c"
      using Cons.prems(3,4) True by (simp add: chunk_ok_strip)
    moreover have "buffer_ok m S (s @ [46, 32])"
      using mem by (auto simp: buffer_ok_def)
    ultimately show ?thesis
      using Cons.IH [OF run sub] by blast
  next
    case False
    with Cons.prems(1) have run: "chunk_loop m ss chunks (cur @ s @ [46, 32]) = (chunks', cur')"
      by (auto simp add: pystr_dot_space)
    have "buffer_ok m S (cur @ s @ [46, 32])"
    proof (cases "cur = []")
      case True
      with mem show ?thesis by (auto simp: buffer_ok_def)
    next
      case False
      with \<open>\<not> (int (length cur) + int (length s) > m \<and> cur \<noteq> [])\<close>
      have "int (length (cur @ s)) \<le> m" by simp
      moreover have "cur @ s @ [46, 32] = (cur @ s) @ [46, 32]" by simp
      ultimately show ?thesis unfolding buffer_ok_def by blast
    qed
    then show ?thesis
      using Cons.IH [OF run sub Cons.prems(3)] by blast
  qed
qed
lemma chunk_length_bound:
  "\<forall>chunk \<in> set (contextual_chunks text max_chunk_size).
     int (length chunk) \<le> max_chunk_size + 1 \<or>
     (\<exists>f\<in>set (sentences_of text).
        max_chunk_size < int (length f) \<and> chunk = strip (f @ pystr ''. ''))"
proof -
  obtain chunks cur where run:
    "chunk_loop max_chunk_size (sentences_of text) [] [] = (chunks, cur)"
    by (cases "chunk_loop max_chunk_size (sentences_of text) [] []")
  have inv: "(\<forall>c\<in>set chunks. chunk_ok max_chunk_size (sentences_of text) c)
      \<and> buffer_ok max_chunk_size (sentences_of text) cur"
    by (rule chunk_loop_ok [OF run]) (simp_all add: buffer_ok_def)
  then have "\<forall>c\<in>set (if cur \<noteq> [] then chunks @ [strip cur] else chunks).
      chunk_ok max_chunk_size (sentences_of text) c"
    by (simp add: chunk_ok_strip)
  then show ?thesis
    by (simp add: contextual_chunks_def run chunk_ok_def pystr_dot_space)
qed

section \<open>Properties of the dispatcher\<close>

lemma process_chunk_result:
  "fst (process_chunk chunk client n tracker) = chunk_result client (n, chunk)"
proof (cases "client n chunk")
  case (Inl e)
  then show ?thesis
    by (simp add: chunk_result_def process_chunk_def process_chunk_try_def)
next
  case (Inr response)
  then show ?thesis
    by (cases "response_usage response")
      (simp_all add: chunk_result_def process_chunk_def process_chunk_try_def Let_def
        split: list.splits option.splits)
qed

lemma collect_results:
  "fst (collect client jobs results tracker) = results @ map (chunk_result client) jobs"
proof (induction jobs arbitrary: results tracker)
  case Nil
  then show ?case by simp
next
  case (Cons job jobs)
  obtain n chunk where job: "job = (n, chunk)"
    by (cases job)
  obtain r tracker' where pc: "process_chunk chunk client n tracker = (r, tracker')"
    by (cases "process_chunk chunk client n tracker")
  have r: "r = chunk_result client (n, chunk)"
    using process_chunk_result [of chunk client n tracker] by (simp add: pc)
  have "collect client (job # jobs) results tracker = collect client jobs (results @ [r]) tracker'"
    by (simp add: job future_result_def pc)
  then show ?case
    by (simp add: Cons.IH r job)
qed

lemma parallel_results:
  "fst (process_chunks_parallel as_completed client chunks tracker)
     = map (chunk_result client) (as_completed (enumerate 1 chunks))"
  by (simp add: process_chunks_parallel_def collect_results)

lemma raised_result: "call_raises client n chunk \<Longrightarrow> chunk_result client (n, chunk) = []"
  by (auto simp: call_raises_def chunk_result_def process_chunk_def process_chunk_try_def
      split: sum.splits list.splits option.splits)

lemma returned_result:
  assumes "client n chunk = Inr response" and "response_usage response \<noteq> Null"
    and "choices response = Some content # others"
  shows "chunk_result client (n, chunk) =
     (if contains (pystr ''German:'') (strip content) \<and> contains (pystr ''English:'') (strip content)
      then strip content else error_tag n @ strip content)"
  using assms
  by (cases "response_usage response")
    (simp_all add: chunk_result_def process_chunk_def process_chunk_try_def Let_def)

lemma every_job_completes:
  assumes "completion_order as_completed chunks" and "i < length chunks"
  shows "\<exists>k<length chunks. as_completed (enumerate 1 chunks) ! k = (Suc i, chunks ! i)"
proof -
  let ?jobs = "enumerate 1 chunks"
  have m: "mset (as_completed ?jobs) = mset ?jobs"
    using assms(1) by (simp add: completion_order_def)
  have "(Suc i, chunks ! i) \<in> set ?jobs"
    using assms(2) by (auto simp: in_set_enumerate_eq)
  then have "(Suc i, chunks ! i) \<in> set (as_completed ?jobs)"
    using mset_eq_setD [OF m] by simp
  then obtain k where "k < length (as_completed ?jobs)"
    and "as_completed ?jobs ! k = (Suc i, chunks ! i)"
    by (auto simp: in_set_conv_nth)
  moreover have "length (as_completed ?jobs) = length chunks"
    using mset_eq_length [OF m] by simp
  ultimately show ?thesis by auto
qed

text \<open>When the futures finish in the order of submission, the results are in chunk order.\<close>

lemma in_order_results:
  "fst (process_chunks_parallel (\<lambda>jobs. jobs) client chunks tracker)
     = map (chunk_result client) (enumerate 1 chunks)"
  by (rule parallel_results)

text \<open>
  C1. The dispatcher is to return the result of the i-th chunk at position i. Here two
  chunks are answered by the service \<open>echo\<close>, and the future of the second chunk
  finishes first. The dispatcher returns the result of the second chunk at position 0
  and the result of the first chunk at position 1: the list is in completion order and
  differs from the results in chunk order.
\<close>

theorem results_in_completion_order:
  "completion_order rev [pystr ''eins'', pystr ''zwei'']
   \<and> fst (process_chunks_parallel rev echo [pystr ''eins'', pystr ''zwei''] (init 0))
       = [pystr ''German: English: zwei'', pystr ''German: English: eins'']
   \<and> chunk_result echo (1, pystr ''eins'') = pystr ''German: English: eins''
   \<and> chunk_result echo (2, pystr ''zwei'') = pystr ''German: English: zwei''
   \<and> fst (process_chunks_parallel rev echo [pystr ''eins'', pystr ''zwei''] (init 0))
       \<noteq> map (chunk_result echo) (enumerate 1 [pystr ''eins'', pystr ''zwei''])"
  by (simp add: completion_order_def process_chunks_parallel_def future_result_def chunk_result_def
     process_chunk_def process_chunk_try_def echo_def pystr_def strip_def isspace_def)

text \<open>
  C3. For every completion order, the dispatcher returns as many results as there are
  chunks, and every chunk has its slot, the position at which its future completed.
  When an exception is raised while the call for the chunk is performed, the slot holds
  the empty string. When the call returns a text, the slot holds that text, stripped,
  with the error tag in front if a marker is missing, whatever happens to the other
  chunks.
\<close>

theorem one_result_per_chunk:
  assumes "completion_order as_completed chunks"
  shows "length (fst (process_chunks_parallel as_completed client chunks tracker)) = length chunks
    \<and> (\<forall>i<length chunks. \<exists>k<length chunks.
          as_completed (enumerate 1 chunks) ! k = (Suc i, chunks ! i)
          \<and> (call_raises client (Suc i) (chunks ! i) \<longrightarrow>
               fst (process_chunks_parallel as_completed client chunks tracker) ! k = [])
          \<and> (\<forall>response content others.
                client (Suc i) (chunks ! i) = Inr response
                \<and> response_usage response \<noteq> Null
                \<and> choices response = Some content # others \<longrightarrow>
                fst (process_chunks_parallel as_completed client chunks tracker) ! k
                  = (if contains (pystr ''German:'') (strip content)
                        \<and> contains (pystr ''English:'') (strip content)
                     then strip content else error_tag (Suc i) @ strip content)))"
proof -
  let ?jobs = "enumerate 1 chunks"
  let ?results = "fst (process_chunks_parallel as_completed client chunks tracker)"
  have m: "mset (as_completed ?jobs) = mset ?jobs"
    using assms by (simp add: completion_order_def)
  have res: "?results = map (chunk_result client) (as_completed ?jobs)"
    by (rule parallel_results)
  have n: "length (as_completed ?jobs) = length chunks"
    using mset_eq_length [OF m] by simp
  then have len: "length ?results = length chunks"
    by (simp add: res)
  have slot: "\<exists>k<length chunks.
          as_completed ?jobs ! k = (Suc i, chunks ! i)
          \<and> (call_raises client (Suc i) (chunks ! i) \<longrightarrow> ?results ! k = [])
          \<and> (\<forall>response content others.
                client (Suc i) (chunks ! i) = Inr response
                \<and> response_usage response \<noteq> Null
                \<and> choices response = Some content # others \<longrightarrow>
                ?results ! k
                  = (if contains (pystr ''German:'') (strip content)
                        \<and> contains (pystr ''English:'') (strip content)
                     then strip content else error_tag (Suc i) @ strip content))"
    if i: "i < length chunks" for i
  proof -
    obtain k where k: "k < length chunks" and job: "as_completed ?jobs ! k = (Suc i, chunks ! i)"
      using every_job_completes [OF assms i] by blast
    have "map (chunk_result client) (as_completed ?jobs) ! k
        = chunk_result client (as_completed ?jobs ! k)"
      by (rule nth_map) (use n k in \<open>simp del: One_nat_def\<close>)
    then have r: "?results ! k = chunk_result client (Suc i, chunks ! i)"
      unfolding res job .
    have "call_raises client (Suc i) (chunks ! i) \<longrightarrow> ?results ! k = []"
      by (simp add: r raised_result)
    moreover have "\<forall>response content others.
                client (Suc i) (chunks ! i) = Inr response
                \<and> response_usage response \<noteq> Null
                \<and> choices response = Some content # others \<longrightarrow>
                ?results ! k
                  = (if contains (pystr ''German:'') (strip content)
                        \<and> contains (pystr ''English:'') (strip content)
                     then strip content else error_tag (Suc i) @ strip content)"
      unfolding r using returned_result by blast
    ultimately show ?thesis
      using k job by blast
  qed
  from len slot show ?thesis
    by blast
qed

theorem one_result_per_chunk_witness:
  "completion_order rev [pystr ''eins'', pystr ''zwei'']
   \<and> call_raises flaky 1 (pystr ''eins'')
   \<and> flaky 2 (pystr ''zwei'')
       = Inr \<lparr>choices = [Some (pystr ''German: English: zwei'')], response_usage = Missing\<rparr>
   \<and> fst (process_chunks_parallel rev flaky [pystr ''eins'', pystr ''zwei''] (init 0))
       = [pystr ''German: English: zwei'', []]
   \<and> length (fst (process_chunks_parallel rev flaky [pystr ''eins'', pystr ''zwei''] (init 0))) = 2
   \<and> fst (process_chunks_parallel rev flaky [pystr ''eins'', pystr ''zwei''] (init 0)) ! 0
       = pystr ''German: English: zwei''
   \<and> fst (process_chunks_parallel rev flaky [pystr ''eins'', pystr ''zwei''] (init 0)) ! 1 = []"
proof -
  let ?chunks = "[pystr ''eins'', pystr ''zwei'']"
  let ?results = "fst (process_chunks_parallel rev flaky ?chunks (init 0))"
  let ?response = "\<lparr>choices = [Some (pystr ''German: English: zwei'')], response_usage = Missing\<rparr>"
  have h: "completion_order rev ?chunks"
    by (simp add: completion_order_def)
  have jobs: "rev (enumerate 1 ?chunks) = [(2, pystr ''zwei''), (1, pystr ''eins'')]"
    by simp
  have raises: "call_raises flaky 1 (pystr ''eins'')"
    by (simp add: call_raises_def flaky_def)
  have returns: "flaky 2 (pystr ''zwei'') = Inr ?response"
    by (simp add: flaky_def echo_def pystr_def)
  have markers: "contains (pystr ''German:'') (strip (pystr ''German: English: zwei''))
      \<and> contains (pystr ''English:'') (strip (pystr ''German: English: zwei''))"
    by (simp add: pystr_def strip_def isspace_def)
  have stripped: "strip (pystr ''German: English: zwei'') = pystr ''German: English: zwei''"
    by (simp add: pystr_def strip_def isspace_def)
  note t = one_result_per_chunk [OF h, of flaky "init 0"]
  from t have len: "length ?results = length ?chunks"
    by (elim conjE)
  from t have slots: "\<forall>i<length ?chunks. \<exists>k<length ?chunks.
          rev (enumerate 1 ?chunks) ! k = (Suc i, ?chunks ! i)
          \<and> (call_raises flaky (Suc i) (?chunks ! i) \<longrightarrow> ?results ! k = [])
          \<and> (\<forall>response content others.
                flaky (Suc i) (?chunks ! i) = Inr response
                \<and> response_usage response \<noteq> Null
                \<and> choices response = Some content # others \<longrightarrow>
                ?results ! k
                  = (if contains (pystr ''German:'') (strip content)
                        \<and> contains (pystr ''English:'') (strip content)
                     then strip content else error_tag (Suc i) @ strip content))"
    by (elim conjE)
  have second: "?results ! 0 = pystr ''German: English: zwei''"
  proof -
    have "1 < length ?chunks"
      by simp
    note s = slots [rule_format, OF this]
    from s obtain k where k: "k < length ?chunks"
      and job: "rev (enumerate 1 ?chunks) ! k = (Suc 1, ?chunks ! 1)"
      and val: "\<forall>response content others.
                flaky (Suc 1) (?chunks ! 1) = Inr response
                \<and> response_usage response \<noteq> Null
                \<and> choices response = Some content # others \<longrightarrow>
                ?results ! k
                  = (if contains (pystr ''German:'') (strip content)
                        \<and> contains (pystr ''English:'') (strip content)
                     then strip content else error_tag (Suc 1) @ strip content)"
      by (elim exE conjE) (rule that)
    from k job have k0: "k = 0"
      unfolding jobs by (cases k) (simp_all add: pystr_def)
    have "flaky (Suc 1) (?chunks ! 1) = Inr ?response
        \<and> response_usage ?response \<noteq> Null
        \<and> choices ?response = Some (pystr ''German: English: zwei'') # []"
      by (simp add: flaky_def echo_def pystr_def)
    from val [rule_format, OF this] show ?thesis
      unfolding k0 using markers stripped by simp
  qed
  have first: "?results ! 1 = []"
  proof -
    have "0 < length ?chunks"
      by simp
    note s = slots [rule_format, OF this]
    from s obtain k where k: "k < length ?chunks"
      and job: "rev (enumerate 1 ?chunks) ! k = (Suc 0, ?chunks ! 0)"
      and val: "call_raises flaky (Suc 0) (?chunks ! 0) \<longrightarrow> ?results ! k = []"
      by (elim exE conjE) (rule that)
    from k job have k1: "k = 1"
      unfolding jobs by (cases k) (simp_all add: pystr_def)
    have "call_raises flaky (Suc 0) (?chunks ! 0)"
      by (simp add: call_raises_def flaky_def)
    with val show ?thesis
      unfolding k1 by (elim impE)
  qed
  from len have two: "length ?results = 2"
    by simp
  have all: "?results = [pystr ''German: English: zwei'', []]"
  proof (rule nth_equalityI)
    show "length ?results = length [pystr ''German: English: zwei'', []]"
      using two by simp
  next
    fix i assume "i < length ?results"
    then have "i = 0 \<or> i = 1"
      using two by auto
    then show "?results ! i = [pystr ''German: English: zwei'', []] ! i"
      using second first by auto
  qed
  from h raises returns all two second first show ?thesis
    by (intro conjI)
qed

section \<open>Properties of validation and aggregation\<close>

lemma contains_prefix: "prefix p s \<Longrightarrow> contains p s"
  by (cases s) simp_all

lemma contains_append_left: "contains p s \<Longrightarrow> contains p (u @ s)"
  by (induction u) simp_all

lemma contains_join: "x \<in> set xs \<Longrightarrow> contains x (join sep xs)"
proof (induction sep xs rule: join.induct)
  case (1 sep)
  then show ?case by simp
next
  case (2 sep part)
  then show ?case by (simp add: contains_prefix)
next
  case (3 sep part v va)
  show ?case
  proof (cases "x = part")
    case True
    then have "prefix x (join sep (part # v # va))"
      by simp
    then show ?thesis
      by (rule contains_prefix)
  next
    case False
    with 3 have "contains x (join sep (v # va))"
      by simp
    then have "contains x (part @ sep @ join sep (v # va))"
      by (intro contains_append_left)
    then show ?thesis
      by simp
  qed
qed

lemma str_nat_not_empty: "str_nat n \<noteq> []"
  by (subst str_nat.simps) simp

text \<open>
  Two answers without markers. The service \<open>hush\<close> sends its text in a response whose
  usage is \<open>None\<close>: the exception of \<open>add_usage\<close> makes \<open>process_chunk\<close> return the
  empty string, and the aggregated output is empty. The service \<open>parrot\<close> sends the
  same text without a usage attribute: \<open>process_chunk\<close> returns the tagged text, which
  holds the stripped text and not the text as it was returned.
\<close>

theorem malformed_result_lost_or_stripped:
  "hush 1 (pystr ''Guten Tag'')
     = Inr \<lparr>choices = [Some ([32] @ pystr ''Guten Tag'' @ [10])], response_usage = Null\<rparr>
   \<and> \<not> contains (pystr ''German:'') ([32] @ pystr ''Guten Tag'' @ [10])
   \<and> fst (process_chunk (pystr ''Guten Tag'') hush 1 (init 0)) = []
   \<and> formatted_text (fst (process_chunks_parallel rev hush [pystr ''Guten Tag''] (init 0))) = []
   \<and> parrot 1 (pystr ''Guten Tag'')
     = Inr \<lparr>choices = [Some ([32] @ pystr ''Guten Tag'' @ [10])], response_usage = Missing\<rparr>
   \<and> fst (process_chunk (pystr ''Guten Tag'') parrot 1 (init 0))
     = pystr ''[Error processing chunk 1]'' @ [10] @ pystr ''Guten Tag''
   \<and> \<not> contains ([32] @ pystr ''Guten Tag'' @ [10])
        (fst (process_chunk (pystr ''Guten Tag'') parrot 1 (init 0)))"
proof -
  have a: "hush 1 (pystr ''Guten Tag'')
     = Inr \<lparr>choices = [Some ([32] @ pystr ''Guten Tag'' @ [10])], response_usage = Null\<rparr>"
    by (simp add: hush_def)
  have b: "\<not> contains (pystr ''German:'') ([32] @ pystr ''Guten Tag'' @ [10])"
    by (simp add: pystr_def)
  have c: "fst (process_chunk (pystr ''Guten Tag'') hush 1 (init 0)) = []"
    by (simp add: process_chunk_def process_chunk_try_def hush_def)
  have d: "formatted_text (fst (process_chunks_parallel rev hush [pystr ''Guten Tag''] (init 0))) = []"
    by (simp add: formatted_text_def kept_def process_chunks_parallel_def future_result_def
        process_chunk_def process_chunk_try_def hush_def)
  have e: "parrot 1 (pystr ''Guten Tag'')
     = Inr \<lparr>choices = [Some ([32] @ pystr ''Guten Tag'' @ [10])], response_usage = Missing\<rparr>"
    by (simp add: parrot_def)
  have f: "fst (process_chunk (pystr ''Guten Tag'') parrot 1 (init 0))
     = pystr ''[Error processing chunk 1]'' @ [10] @ pystr ''Guten Tag''"
    by (simp add: process_chunk_def process_chunk_try_def parrot_def pystr_def strip_def
        isspace_def error_tag_def str_nat.simps)
  have g: "\<not> contains ([32] @ pystr ''Guten Tag'' @ [10])
        (fst (process_chunk (pystr ''Guten Tag'') parrot 1 (init 0)))"
    unfolding f by (simp add: pystr_def)
  from a b c d e f g show ?thesis
    by (intro conjI)
qed

text \<open>
  C5. When the call for a chunk returns a text in which \<open>German:\<close> or \<open>English:\<close> is
  missing, in a response whose usage is not \<open>None\<close>, \<open>process_chunk\<close> returns the error
  tag followed by the returned text, stripped of surrounding whitespace. This string is
  not empty, it is the result in the slot of the chunk, it survives the filter of the
  aggregation, and it occurs in the aggregated output, for every completion order.
\<close>

theorem malformed_result_kept:
  assumes "completion_order as_completed chunks"
    and "i < length chunks"
    and "client (Suc i) (chunks ! i) = Inr response"
    and "response_usage response \<noteq> Null"
    and "choices response = Some content # others"
    and "\<not> contains (pystr ''German:'') (strip content)
         \<or> \<not> contains (pystr ''English:'') (strip content)"
  shows "fst (process_chunk (chunks ! i) client (Suc i) cost_tracker)
           = error_tag (Suc i) @ strip content
    \<and> error_tag (Suc i) @ strip content \<noteq> []
    \<and> (\<exists>k<length chunks.
          as_completed (enumerate 1 chunks) ! k = (Suc i, chunks ! i)
          \<and> fst (process_chunks_parallel as_completed client chunks tracker) ! k
              = error_tag (Suc i) @ strip content)
    \<and> error_tag (Suc i) @ strip content
         \<in> set (kept (fst (process_chunks_parallel as_completed client chunks tracker)))
    \<and> contains (error_tag (Suc i) @ strip content)
         (formatted_text (fst (process_chunks_parallel as_completed client chunks tracker)))"
proof -
  let ?r = "error_tag (Suc i) @ strip content"
  let ?jobs = "enumerate 1 chunks"
  let ?results = "fst (process_chunks_parallel as_completed client chunks tracker)"
  have cr: "chunk_result client (Suc i, chunks ! i) = ?r"
    using returned_result [of client "Suc i" "chunks ! i" response content others,
        OF assms(3,4,5)] assms(6)
    by auto
  then have pc: "fst (process_chunk (chunks ! i) client (Suc i) cost_tracker) = ?r"
    by (simp add: process_chunk_result)
  have ne: "?r \<noteq> []"
    by (simp add: error_tag_def pystr_def)
  have res: "?results = map (chunk_result client) (as_completed ?jobs)"
    by (rule parallel_results)
  have n: "length (as_completed ?jobs) = length chunks"
    using assms(1) mset_eq_length [of "as_completed ?jobs" ?jobs]
    by (simp add: completion_order_def)
  obtain k where k: "k < length chunks" and job: "as_completed ?jobs ! k = (Suc i, chunks ! i)"
    using every_job_completes [OF assms(1,2)] by (elim exE conjE)
  have "map (chunk_result client) (as_completed ?jobs) ! k
      = chunk_result client (as_completed ?jobs ! k)"
    by (rule nth_map) (use n k in \<open>simp del: One_nat_def\<close>)
  then have slot: "?results ! k = ?r"
    unfolding res job cr .
  have "k < length ?results"
    using k n by (simp add: res del: One_nat_def)
  then have "?results ! k \<in> set ?results"
    by (rule nth_mem)
  then have "?r \<in> set ?results"
    unfolding slot .
  with ne have kept: "?r \<in> set (kept ?results)"
    by (simp add: kept_def)
  then have "contains ?r (formatted_text ?results)"
    unfolding formatted_text_def by (rule contains_join)
  with pc ne k job slot kept show ?thesis
    by blast
qed

theorem malformed_result_kept_witness:
  "completion_order rev [pystr ''Guten Tag''] \<and> (0::nat) < length [pystr ''Guten Tag'']
   \<and> parrot (Suc 0) ([pystr ''Guten Tag''] ! 0)
       = Inr \<lparr>choices = [Some ([32] @ pystr ''Guten Tag'' @ [10])], response_usage = Missing\<rparr>
   \<and> Missing \<noteq> Null
   \<and> \<not> contains (pystr ''German:'') (strip ([32] @ pystr ''Guten Tag'' @ [10]))
   \<and> fst (process_chunk ([pystr ''Guten Tag''] ! 0) parrot (Suc 0) (init 0))
       = error_tag (Suc 0) @ strip ([32] @ pystr ''Guten Tag'' @ [10])
   \<and> error_tag (Suc 0) @ strip ([32] @ pystr ''Guten Tag'' @ [10])
       = pystr ''[Error processing chunk 1]'' @ [10] @ pystr ''Guten Tag''
   \<and> formatted_text (fst (process_chunks_parallel rev parrot [pystr ''Guten Tag''] (init 0)))
       = pystr ''[Error processing chunk 1]'' @ [10] @ pystr ''Guten Tag''
   \<and> contains (error_tag (Suc 0) @ strip ([32] @ pystr ''Guten Tag'' @ [10]))
       (formatted_text (fst (process_chunks_parallel rev parrot [pystr ''Guten Tag''] (init 0))))"
proof -
  let ?chunks = "[pystr ''Guten Tag'']"
  let ?content = "[32] @ pystr ''Guten Tag'' @ [10]"
  let ?response = "\<lparr>choices = [Some ?content], response_usage = Missing\<rparr>"
  let ?text = "formatted_text (fst (process_chunks_parallel rev parrot ?chunks (init 0)))"
  have h1: "completion_order rev ?chunks"
    by (simp add: completion_order_def)
  have h2: "(0::nat) < length ?chunks"
    by simp
  have h3: "parrot (Suc 0) (?chunks ! 0) = Inr ?response"
    by (simp add: parrot_def)
  have h4: "response_usage ?response \<noteq> Null"
    by simp
  have h4': "Missing \<noteq> Null"
    by simp
  have h5: "choices ?response = Some ?content # []"
    by simp
  have h6: "\<not> contains (pystr ''German:'') (strip ?content)"
    by (simp add: pystr_def strip_def isspace_def)
  then have h6': "\<not> contains (pystr ''German:'') (strip ?content)
      \<or> \<not> contains (pystr ''English:'') (strip ?content)"
    by (rule disjI1)
  have tag: "error_tag (Suc 0) @ strip ?content
      = pystr ''[Error processing chunk 1]'' @ [10] @ pystr ''Guten Tag''"
    by (simp add: pystr_def strip_def isspace_def error_tag_def str_nat.simps)
  have e: "?text = pystr ''[Error processing chunk 1]'' @ [10] @ pystr ''Guten Tag''"
    by (simp add: formatted_text_def kept_def process_chunks_parallel_def future_result_def
        process_chunk_def process_chunk_try_def parrot_def pystr_def strip_def isspace_def
        error_tag_def str_nat.simps)
  note t = malformed_result_kept [of rev ?chunks 0 parrot ?response ?content "[]" "init 0" "init 0",
      OF h1 h2 h3 h4 h5 h6']
  from t have r: "fst (process_chunk (?chunks ! 0) parrot (Suc 0) (init 0))
      = error_tag (Suc 0) @ strip ?content"
    by (elim conjE)
  from t have c: "contains (error_tag (Suc 0) @ strip ?content) ?text"
    by (elim conjE)
  from h1 h2 h3 h4' h6 r tag e c show ?thesis
    by (intro conjI)
qed

subsection \<open>Counting the separators\<close>

text \<open>
  The answer of the service \<open>ruler\<close> has both markers and passes validation
  unchanged, so the dispatcher returns it as the result of the chunk. Aggregating this
  single result gives an output with one occurrence of the separator, where the count
  of non-empty results less one is zero. With no result at all the output is empty and
  has no occurrence, where the count less one is -1.
\<close>

theorem separator_inside_result:
  "fst (process_chunks_parallel id ruler [pystr ''Guten Tag''] (init 0))
     = [pystr ''German: a'' @ separator @ pystr ''English: b'']
   \<and> length (kept [pystr ''German: a'' @ separator @ pystr ''English: b'']) = 1
   \<and> occurrences separator
        (formatted_text [pystr ''German: a'' @ separator @ pystr ''English: b'']) = 1
   \<and> int (occurrences separator
        (formatted_text [pystr ''German: a'' @ separator @ pystr ''English: b'']))
      \<noteq> int (length (kept [pystr ''German: a'' @ separator @ pystr ''English: b''])) - 1
   \<and> int (occurrences separator (formatted_text [])) \<noteq> int (length (kept [])) - 1"
proof -
  have "fst (process_chunks_parallel id ruler [pystr ''Guten Tag''] (init 0))
     = [pystr ''German: a'' @ separator @ pystr ''English: b'']"
    by (simp add: process_chunks_parallel_def future_result_def process_chunk_def
        process_chunk_try_def ruler_def pystr_def separator_def strip_def isspace_def)
  then show ?thesis
    by (simp add: formatted_text_def kept_def separator_def pystr_def)
qed

text \<open>
  The occurrences of the separator in the joined text are the inserted separators when
  no part contains three consecutive hyphens: no occurrence can start inside a part,
  and none inside an inserted separator.
\<close>

lemma prefix_separator_hyphens: "prefix separator u \<Longrightarrow> contains hyphens u"
  by (auto simp: separator_def hyphens_def prefix_def)

lemma occurrences_none:
  "\<not> contains hyphens x \<Longrightarrow> occurrences separator x = 0"
proof (induction x)
  case Nil
  then show ?case by (simp add: separator_def)
next
  case (Cons a x)
  then have "\<not> prefix separator (a # x)" and "\<not> contains hyphens x"
    using prefix_separator_hyphens [of "a # x"] by auto
  with Cons.IH show ?case by simp
qed

text \<open>No occurrence starts inside a part without hyphens that is followed by a separator.\<close>

lemma no_start_in_part:
  assumes "\<not> contains hyphens (a # x)"
  shows "\<not> prefix separator ((a # x) @ separator @ t)"
proof
  assume p: "prefix separator ((a # x) @ separator @ t)"
  consider "x = []" | b where "x = [b]" | b c where "x = [b, c]" | b c d where "x = [b, c, d]"
    | b c d e y where "x = b # c # d # e # y"
    by (cases x; cases "tl x"; cases "tl (tl x)"; cases "tl (tl (tl x))") auto
  then show False
  proof cases
    case 1
    with p show False by (simp add: separator_def)
  next
    case 2
    with p show False by (simp add: separator_def)
  next
    case 3
    with p show False by (simp add: separator_def)
  next
    case 4
    with p show False by (simp add: separator_def)
  next
    case 5
    with p assms show False by (simp add: separator_def hyphens_def)
  qed
qed

lemma occurrences_skip_part:
  "\<not> contains hyphens x \<Longrightarrow>
     occurrences separator (x @ separator @ t) = occurrences separator (separator @ t)"
proof (induction x)
  case Nil
  then show ?case by simp
next
  case (Cons a x)
  have "\<not> prefix separator ((a # x) @ separator @ t)"
    using Cons.prems by (rule no_start_in_part)
  moreover have "\<not> contains hyphens x"
    using Cons.prems by simp
  ultimately show ?case
    using Cons.IH by simp
qed

text \<open>The shape of a joined list: the first part, then nothing or a separator.\<close>

lemma join_Cons:
  "join sep (y # ys) = y @ (if ys = [] then [] else sep @ join sep ys)"
  by (cases ys) simp_all

lemma no_start_before_part:
  assumes "y \<noteq> []" and "\<not> contains hyphens y" and "r = [] \<or> prefix [10] r"
  shows "\<not> prefix [45, 45, 45, 10, 10] (y @ r)"
    and "\<not> prefix [10, 45, 45, 45, 10, 10] (y @ r)"
proof -
  consider b where "y = [b]" | b c where "y = [b, c]" | b c d where "y = [b, c, d]"
    | b c d e z where "y = b # c # d # e # z"
    using assms(1)
    by (cases y; cases "tl y"; cases "tl (tl y)"; cases "tl (tl (tl y))") auto
  then have "\<not> prefix [45, 45, 45, 10, 10] (y @ r) \<and> \<not> prefix [10, 45, 45, 45, 10, 10] (y @ r)"
  proof cases
    case 1
    with assms(3) show ?thesis by (auto simp: prefix_def)
  next
    case 2
    with assms(3) show ?thesis by (auto simp: prefix_def)
  next
    case 3
    with assms(2,3) show ?thesis by (auto simp: prefix_def hyphens_def)
  next
    case 4
    with assms(2) show ?thesis by (auto simp: hyphens_def)
  qed
  then show "\<not> prefix [45, 45, 45, 10, 10] (y @ r)"
    and "\<not> prefix [10, 45, 45, 45, 10, 10] (y @ r)"
    by simp_all
qed

lemma occurrences_separator_then_part:
  assumes "y \<noteq> []" and "\<not> contains hyphens y" and "r = [] \<or> prefix [10] r"
  shows "occurrences separator (separator @ y @ r) = Suc (occurrences separator (y @ r))"
  using no_start_before_part [OF assms]
  by (simp add: separator_def)

lemma occurrences_join:
  assumes "xs \<noteq> []" and "\<forall>x\<in>set xs. x \<noteq> [] \<and> \<not> contains hyphens x"
  shows "occurrences separator (join separator xs) = length xs - 1"
  using assms
proof (induction xs rule: induct_list012)
  case 1
  then show ?case by simp
next
  case (2 x)
  then show ?case by (simp add: occurrences_none)
next
  case (3 x y ys)
  let ?r = "if ys = [] then [] else separator @ join separator ys"
  have t: "join separator (y # ys) = y @ ?r"
    by (rule join_Cons)
  have r: "?r = [] \<or> prefix [10] ?r"
    by (simp add: separator_def)
  have y: "y \<noteq> []" "\<not> contains hyphens y" and x: "\<not> contains hyphens x"
    using "3.prems"(2) by simp_all
  have "occurrences separator (join separator (x # y # ys))
          = occurrences separator (x @ separator @ join separator (y # ys))"
    by simp
  also have "\<dots> = occurrences separator (separator @ join separator (y # ys))"
    using x by (rule occurrences_skip_part)
  also have "\<dots> = Suc (occurrences separator (join separator (y # ys)))"
    unfolding t using y r by (rule occurrences_separator_then_part)
  also have "occurrences separator (join separator (y # ys)) = length (y # ys) - 1"
    using "3.prems"(2) by (intro "3.IH"(2)) simp_all
  finally show ?case by simp
qed

text \<open>
  C4. The aggregation drops exactly the empty results and joins the others with the
  separator. When at least one result is not empty and no result contains three
  consecutive hyphens, the output has exactly (number of non-empty results - 1)
  occurrences of the separator.
\<close>

theorem aggregation_separators:
  "kept results = filter (\<lambda>r. r \<noteq> []) results
   \<and> formatted_text results = join separator (kept results)
   \<and> (kept results \<noteq> [] \<and> (\<forall>r\<in>set results. \<not> contains hyphens r) \<longrightarrow>
        int (occurrences separator (formatted_text results)) = int (length (kept results)) - 1)"
proof -
  have "occurrences separator (join separator (kept results)) = length (kept results) - 1"
    if "kept results \<noteq> []" and "\<forall>r\<in>set results. \<not> contains hyphens r"
    using that by (intro occurrences_join) (simp_all add: kept_def)
  moreover have "int (length (kept results) - 1) = int (length (kept results)) - 1"
    if "kept results \<noteq> []"
    using that by (cases "kept results") simp_all
  ultimately show ?thesis
    by (simp add: formatted_text_def kept_def)
qed

theorem aggregation_separators_witness:
  "kept [pystr ''eins'', [], pystr ''zwei''] = [pystr ''eins'', pystr ''zwei'']
   \<and> \<not> contains hyphens (pystr ''eins'') \<and> \<not> contains hyphens []
   \<and> \<not> contains hyphens (pystr ''zwei'')
   \<and> formatted_text [pystr ''eins'', [], pystr ''zwei''] = pystr ''eins'' @ separator @ pystr ''zwei''
   \<and> int (occurrences separator (formatted_text [pystr ''eins'', [], pystr ''zwei''])) = 1"
proof -
  let ?results = "[pystr ''eins'', [], pystr ''zwei'']"
  have k: "kept ?results = [pystr ''eins'', pystr ''zwei'']"
    by (simp add: kept_def pystr_def)
  then have ne: "kept ?results \<noteq> []"
    by simp
  have h: "\<forall>r\<in>set ?results. \<not> contains hyphens r"
    by (simp add: hyphens_def pystr_def)
  have f: "formatted_text ?results = pystr ''eins'' @ separator @ pystr ''zwei''"
    by (simp add: formatted_text_def k)
  note t = aggregation_separators [of ?results]
  from t have "kept ?results \<noteq> [] \<and> (\<forall>r\<in>set ?results. \<not> contains hyphens r) \<longrightarrow>
        int (occurrences separator (formatted_text ?results)) = int (length (kept ?results)) - 1"
    by (elim conjE)
  with ne h have "int (occurrences separator (formatted_text ?results)) = int (length (kept ?results)) - 1"
    by (elim impE) (intro conjI)
  then have o: "int (occurrences separator (formatted_text ?results)) = 1"
    by (simp add: k)
  have h1: "\<not> contains hyphens (pystr ''eins'')" and h2: "\<not> contains hyphens []"
    and h3: "\<not> contains hyphens (pystr ''zwei'')"
    using h by simp_all
  from k h1 h2 h3 f o show ?thesis
    by (intro conjI)
qed

end
